theory Spec2Isabelle
  imports Complex_Main "HOL-Library.Sublist"
begin

section \<open>Data model of \<^verbatim>\<open>ipyrad/analysis/pca.py\<close>\<close>

text \<open>
  The genotype matrix \<^verbatim>\<open>self.snps\<close> is a two-dimensional integer array, samples by
  markers, held here as the list of its rows; the value 9 is the reserved code of a missing
  call. Coordinates, variances and coverage thresholds are numpy floats; they are
  idealised as reals, the one non-number that the code can produce (0/0) being kept as
  \<open>NaN\<close>. Python values whose dynamic type the code branches on (\<^verbatim>\<open>impute_method\<close>,
  dictionary keys) are a tagged union.
\<close>

type_synonym genos = "int list list"
type_synonym coords = "real list list"

datatype py_value = PyNone | PyBool bool | PyInt int | PyStr string | PyFloat real

datatype npfloat = Num real | NaN

datatype error =
    NotImplementedError
  | IndexError
  | KeyError
  | TypeError
  | AttributeError
  | ValueError
  | AssertionError string

text \<open>A population map (a Python dict in insertion order) and a minimum-coverage map.\<close>

type_synonym imap = "(py_value \<times> string list) list"
type_synonym minmap = "(py_value \<times> real) list"

text \<open>\<^verbatim>\<open>arr.shape[1]\<close> of a two-dimensional array held as its rows.\<close>

definition ncols :: "'a list list \<Rightarrow> nat" where
  "ncols m = (case m of [] \<Rightarrow> 0 | r # _ \<Rightarrow> length r)"

text \<open>A numpy array is rectangular: every row has \<^verbatim>\<open>shape[1]\<close> entries.\<close>

definition rect :: "'a list list \<Rightarrow> bool" where
  "rect m = list_all (\<lambda>r. length r = ncols m) m"

section \<open>Missing-data accounting (\<^verbatim>\<open>__init__\<close>, lines 153-161)\<close>

text \<open>\<^verbatim>\<open>np.sum(self.snps == 9, axis=1)\<close>: the number of sentinel entries of each row.\<close>

definition count9 :: "int list \<Rightarrow> nat" where
  "count9 r = length (filter (\<lambda>v. v = 9) r)"

text \<open>
  True division of a count by \<^verbatim>\<open>self.snps.shape[1]\<close>. With no column the count of
  a row is 0 and numpy's 0/0 is nan.
\<close>

definition np_divide :: "nat \<Rightarrow> nat \<Rightarrow> npfloat" where
  "np_divide a b = (if b = 0 then NaN else Num (real a / real b))"

definition miss_rows :: "genos \<Rightarrow> npfloat list" where
  "miss_rows snps = map (\<lambda>r. np_divide (count9 r) (ncols snps)) snps"

text \<open>
  \<^verbatim>\<open>round(x, 2)\<close> gives the multiple of 1/100 nearest to \<open>x\<close>. Where \<open>100 * x\<close> lies
  exactly halfway between two integers the code has no rule of its own: it rounds the
  double nearest to the proportion, and the side taken depends on that double's
  representation error and on whether \<^verbatim>\<open>round\<close> is Python's or numpy's. The side is
  therefore a parameter: \<open>up y\<close> says whether the halfway value \<open>y\<close> goes to the larger
  integer. Away from ties the double is taken to be close enough to the proportion for
  the nearest multiple to be the same.
\<close>

definition round_nearest :: "(real \<Rightarrow> bool) \<Rightarrow> real \<Rightarrow> int" where
  "round_nearest up y =
     (let f = \<lfloor>y\<rfloor>; d = y - of_int f in
      if d < 1 / 2 then f
      else if 1 / 2 < d then f + 1
      else if up y then f + 1 else f)"

fun py_round2 :: "(real \<Rightarrow> bool) \<Rightarrow> npfloat \<Rightarrow> npfloat" where
  "py_round2 up NaN = NaN"
| "py_round2 up (Num x) = Num (of_int (round_nearest up (100 * x)) / 100)"

text \<open>\<^verbatim>\<open>list.index\<close>: the first position of a value, ValueError (here None) without one.\<close>

fun index_of :: "'a list \<Rightarrow> 'a \<Rightarrow> nat option" where
  "index_of [] y = None"
| "index_of (x # xs) y =
     (if x = y then Some 0 else map_option Suc (index_of xs y))"

text \<open>
  The one-column data frame \<^verbatim>\<open>self.missing\<close>, indexed by sample name, as the list
  of its (label, value) rows; an assignment by label writes every row of that label.
\<close>

type_synonym frame = "(string \<times> npfloat) list"

definition set_label :: "frame \<Rightarrow> string \<Rightarrow> npfloat \<Rightarrow> frame" where
  "set_label fr name v = map (\<lambda>(n, w). if n = name then (n, v) else (n, w)) fr"

text \<open>The loop \<^verbatim>\<open>for name in self.names\<close> of lines 160-161.\<close>

fun record_missing ::
  "(real \<Rightarrow> bool) \<Rightarrow> npfloat list \<Rightarrow> string list \<Rightarrow> string list \<Rightarrow> frame \<Rightarrow> error + frame" where
  "record_missing up miss names [] fr = Inr fr"
| "record_missing up miss names (name # rest) fr =
     (case index_of names name of
        None \<Rightarrow> Inl ValueError
      | Some i \<Rightarrow>
          if i < length miss
          then record_missing up miss names rest (set_label fr name (py_round2 up (miss ! i)))
          else Inl IndexError)"

definition missing_frame :: "(real \<Rightarrow> bool) \<Rightarrow> genos \<Rightarrow> string list \<Rightarrow> error + frame" where
  "missing_frame up snps names =
     record_missing up (miss_rows snps) names names (map (\<lambda>n. (n, Num 0)) names)"

section \<open>Unconditional imputation (\<^verbatim>\<open>_impute_data\<close>, the final branch)\<close>

text \<open>\<^verbatim>\<open>self.snps[self.snps == 9] = 0\<close>: every entry equal to 9 is overwritten by 0.\<close>

definition impute_null :: "genos \<Rightarrow> genos" where
  "impute_null snps = map (map (\<lambda>v. if v = 9 then 0 else v)) snps"

section \<open>External collaborators\<close>

text \<open>
  The extractor, the baseline imputer, the unlinked-marker sampler and the numerical
  primitives are not part of this module; the engine is parametrised by them. A generator
  state \<open>'g\<close> is threaded through every call that draws random numbers:
  \<^item> \<open>snps_extracter imap minmap mincov\<close>: \<^verbatim>\<open>SNPsExtracter(...).parse_genos_from_hdf5()\<close>, giving
    \<^verbatim>\<open>snps\<close>, \<^verbatim>\<open>snpsmap\<close>, \<^verbatim>\<open>names\<close> and the truth value of \<^verbatim>\<open>_mvals\<close>;
  \<^item> \<open>impute_sample\<close>: \<^verbatim>\<open>SNPsImputer(snps, names, imap, "sample", quiet).run()\<close>;
  \<^item> \<open>jsubsample_snps snpsmap seed\<close>: the column indices of one marker per locus;
  \<^item> \<open>pca_fit\<close>: \<^verbatim>\<open>decomposition.PCA(None)\<close>, the transformed data and the explained
    variance ratios;
  \<^item> \<open>kmeans_fit g K data\<close>: \<^verbatim>\<open>KMeans(n_clusters=K).fit(data).labels_\<close>;
  \<^item> \<open>randint g high\<close>: \<^verbatim>\<open>randint(0, high)\<close> of a generator; \<open>random_state seed\<close>:
    \<^verbatim>\<open>np.random.RandomState(seed)\<close>;
  \<^item> \<open>round_tie_up\<close>: the side that \<^verbatim>\<open>round(x, 2)\<close> takes at a tie on this platform.
\<close>

record 'g collab =
  snps_extracter :: "imap \<Rightarrow> minmap \<Rightarrow> real \<Rightarrow> genos \<times> nat list \<times> string list \<times> bool"
  impute_sample :: "'g \<Rightarrow> genos \<Rightarrow> string list \<Rightarrow> imap \<Rightarrow> genos \<times> 'g"
  jsubsample_snps :: "nat list \<Rightarrow> int \<Rightarrow> nat list"
  pca_fit :: "genos \<Rightarrow> coords \<times> real list"
  kmeans_fit :: "'g \<Rightarrow> py_value \<Rightarrow> coords \<Rightarrow> int list \<times> 'g"
  randint :: "'g \<Rightarrow> int \<Rightarrow> int \<times> 'g"
  random_state :: "int \<Rightarrow> 'g"
  round_tie_up :: "real \<Rightarrow> bool"

text \<open>\<^verbatim>\<open>arr[:, idxs]\<close>: the columns at the given positions, IndexError beyond the last.\<close>

definition take_columns :: "'a list list \<Rightarrow> nat list \<Rightarrow> error + 'a list list" where
  "take_columns m idxs =
     (if list_all (\<lambda>j. j < ncols m) idxs
      then Inr (map (\<lambda>r. map (\<lambda>j. r ! j) idxs) m)
      else Inl IndexError)"

text \<open>\<^verbatim>\<open>self._seed()\<close>: \<^verbatim>\<open>np.random.randint(0, 1e9)\<close> on the process-wide generator.\<close>

definition seed :: "'g collab \<Rightarrow> 'g \<Rightarrow> int \<times> 'g" where
  "seed c g = randint c g 1000000000"

section \<open>The PCA object\<close>

record pca_obj =
  impute_method :: py_value
  mincov :: real
  imap :: imap
  minmap :: minmap
  topcov :: real
  niters :: int
  snps :: "genos option"
  snpsmap :: "nat list"
  names :: "string list"
  missing :: frame
  pcaxes :: "coords list option"
  variances :: "real list list option"

text \<open>
  \<open>snps\<close> is None once \<^verbatim>\<open>_impute_kmeans\<close> has returned None into it; \<open>pcaxes\<close> and
  \<open>variances\<close> are None while they hold the placeholder text of line 122, and then the
  dictionaries keyed 0, 1, ... that \<^verbatim>\<open>run\<close> stores, as lists.
\<close>

section \<open>Kmeans-refined imputation (\<^verbatim>\<open>_impute_kmeans\<close>, lines 202-256)\<close>

text \<open>
  \<^verbatim>\<open>np.linspace(start, stop, num)\<close>: \<open>num\<close> evenly spaced values, the one value
  \<open>start\<close> when \<open>num\<close> is 1, ValueError for a negative \<open>num\<close>.
\<close>

definition linspace :: "real \<Rightarrow> real \<Rightarrow> int \<Rightarrow> error + real list" where
  "linspace start stop num =
     (if num < 0 then Inl ValueError
      else if num = 1 then Inr [start]
      else Inr (map (\<lambda>i. start + real i * ((stop - start) / real (nat num - 1))) [0..<nat num]))"

text \<open>\<^verbatim>\<open>isinstance(x, int)\<close>; a Python bool is an int.\<close>

fun is_int :: "py_value \<Rightarrow> bool" where
  "is_int (PyInt _) = True"
| "is_int (PyBool _) = True"
| "is_int _ = False"

text \<open>
  Lines 250-254: one population per distinct cluster label, in increasing order, holding
  the names of the samples that carry it.
\<close>

definition new_imap :: "string list \<Rightarrow> int list \<Rightarrow> error + imap" where
  "new_imap se_names labels =
     (if length labels \<le> length se_names
      then Inr (map (\<lambda>i. (PyInt i, map (\<lambda>j. se_names ! j) (filter (\<lambda>j. labels ! j = i) [0..<length labels])))
                  (sort (remdups labels)))
      else Inl IndexError)"

text \<open>
  The loop over \<^verbatim>\<open>enumerate(iters)\<close>. Its state is the population map, \<^verbatim>\<open>self.snpsmap\<close>
  and the process-wide generator; \<open>passes\<close> records the \<^verbatim>\<open>mincov\<close> argument of every
  extractor call, in order. The result is None when the loop ends without reaching the
  \<^verbatim>\<open>return\<close> of line 240.
\<close>

fun kmeans_iters ::
  "'g collab \<Rightarrow> py_value \<Rightarrow> real \<Rightarrow> (nat \<times> real) list \<Rightarrow> imap \<Rightarrow> nat list \<Rightarrow> 'g \<Rightarrow> real list
     \<Rightarrow> error + (genos option \<times> nat list \<times> 'g \<times> real list)" where
  "kmeans_iters c K mcov [] kmeans_imap smap g passes = Inr (None, smap, g, passes)"
| "kmeans_iters c K mcov ((it, kmeans_mincov) # rest) kmeans_imap smap g passes =
     (let kmeans_minmap = map (\<lambda>(i, _). (i, mcov)) kmeans_imap in
      (case snps_extracter c kmeans_imap kmeans_minmap kmeans_mincov of
        (se_snps, se_snpsmap, se_names, _) \<Rightarrow>
      (case impute_sample c g se_snps se_names kmeans_imap of
        (impdata, g1) \<Rightarrow>
      if it = 4 then Inr (Some impdata, se_snpsmap, g1, passes @ [kmeans_mincov])
      else
        (case seed c g1 of (sd, g2) \<Rightarrow>
        (case take_columns impdata (jsubsample_snps c se_snpsmap sd) of
          Inl e \<Rightarrow> Inl e
        | Inr subdata \<Rightarrow>
            (case kmeans_fit c g2 K (fst (pca_fit c subdata)) of (labels, g3) \<Rightarrow>
            (case new_imap se_names labels of
              Inl e \<Rightarrow> Inl e
            | Inr kmeans_imap' \<Rightarrow>
                kmeans_iters c K mcov rest kmeans_imap' se_snpsmap g3
                  (passes @ [kmeans_mincov]))))))))"

definition impute_kmeans ::
  "'g collab \<Rightarrow> pca_obj \<Rightarrow> 'g \<Rightarrow> real \<Rightarrow> int
     \<Rightarrow> error + (genos option \<times> nat list \<times> 'g \<times> real list)" where
  "impute_kmeans c obj g tcov n =
     (case linspace tcov (mincov obj) n of
        Inl e \<Rightarrow> Inl e
      | Inr iters \<Rightarrow>
          kmeans_iters c (impute_method obj) (mincov obj) (zip [0..<length iters] iters)
            [(PyStr ''global'', names obj)] (snpsmap obj) g [])"

section \<open>\<^verbatim>\<open>_impute_data\<close> (lines 177-199)\<close>

definition impute_data :: "'g collab \<Rightarrow> pca_obj \<Rightarrow> 'g \<Rightarrow> error + (pca_obj \<times> 'g)" where
  "impute_data c obj g =
     (if impute_method obj = PyStr ''sample'' then
        (case snps obj of
           None \<Rightarrow> Inl TypeError
         | Some m \<Rightarrow>
             (case impute_sample c g m (names obj) (imap obj) of
                (m', g') \<Rightarrow> Inr (obj\<lparr>snps := Some m'\<rparr>, g')))
      else if is_int (impute_method obj) then
        (case impute_kmeans c obj g (topcov obj) (niters obj) of
           Inl e \<Rightarrow> Inl e
         | Inr (res, smap, g', _) \<Rightarrow> Inr (obj\<lparr>snps := res, snpsmap := smap\<rparr>, g'))
      else
        (case snps obj of
           None \<Rightarrow> Inl TypeError
         | Some m \<Rightarrow> Inr (obj\<lparr>snps := Some (impute_null m)\<rparr>, g)))"

section \<open>The constructor (\<^verbatim>\<open>__init__\<close>, lines 90-165)\<close>

text \<open>
  \<open>data\<close> is the resolved path of line 111; an absent \<^verbatim>\<open>imap\<close> or \<^verbatim>\<open>minmap\<close> argument
  is the empty map, which the code treats alike. The import checks of lines 104-107 and
  all printing are left out.
\<close>

definition init_obj ::
  "py_value \<Rightarrow> imap \<Rightarrow> minmap \<Rightarrow> real \<Rightarrow> real \<Rightarrow> int \<Rightarrow> genos \<Rightarrow> nat list \<Rightarrow> string list \<Rightarrow> frame
     \<Rightarrow> pca_obj" where
  "init_obj method im mm mcov tcov n m smap nms fr =
     \<lparr>impute_method = method, mincov = mcov,
      imap = (if im = [] then [(PyStr ''1'', nms)] else im),
      minmap = (if im = [] then [(PyStr ''1'', 1 / 2)] else mm),
      topcov = tcov, niters = n, snps = Some m, snpsmap = smap, names = nms,
      missing = fr, pcaxes = None, variances = None\<rparr>"

definition init ::
  "'g collab \<Rightarrow> 'g \<Rightarrow> string \<Rightarrow> py_value \<Rightarrow> imap \<Rightarrow> minmap \<Rightarrow> real \<Rightarrow> real \<Rightarrow> int
     \<Rightarrow> error + (pca_obj \<times> 'g)" where
  "init c g data method im0 mm0 mcov tcov n =
     (let mm = (if mm0 \<noteq> [] then mm0 else map (\<lambda>(i, _). (i, 1)) im0) in
      if suffix ''.vcf'' data then Inl NotImplementedError
      else
        (case snps_extracter c im0 mm mcov of (m, smap, nms, mvals) \<Rightarrow>
        (case missing_frame (round_tie_up c) m nms of
          Inl e \<Rightarrow> Inl e
        | Inr fr \<Rightarrow>
            (let obj = init_obj method im0 mm mcov tcov n m smap nms fr in
             if method \<noteq> PyBool False \<and> mvals then impute_data c obj g
             else Inr (obj, g)))))"

section \<open>Replicate decomposition (\<^verbatim>\<open>_run\<close> and \<^verbatim>\<open>run\<close>, lines 259-347)\<close>

text \<open>\<^verbatim>\<open>_run\<close>: one decomposition, on a subsample of unlinked markers when asked.\<close>

definition run_rep :: "'g collab \<Rightarrow> pca_obj \<Rightarrow> int \<Rightarrow> bool \<Rightarrow> error + (coords \<times> real list)" where
  "run_rep c obj sd subsample =
     (case snps obj of
        None \<Rightarrow> Inl (if subsample then TypeError else ValueError)
      | Some m \<Rightarrow>
          if subsample then
            (case take_columns m (jsubsample_snps c (snpsmap obj) sd) of
               Inl e \<Rightarrow> Inl e
             | Inr d \<Rightarrow> Inr (pca_fit c d))
          else Inr (pca_fit c m))"

text \<open>
  The replicates in index order, each with the next \<^verbatim>\<open>rng.randint(0, 1e15)\<close> of the
  run's own generator as its seed.
\<close>

fun run_reps ::
  "'g collab \<Rightarrow> pca_obj \<Rightarrow> bool \<Rightarrow> nat list \<Rightarrow> 'g \<Rightarrow> error + (coords \<times> real list) list" where
  "run_reps c obj subsample [] rng = Inr []"
| "run_reps c obj subsample (idx # rest) rng =
     (case randint c rng 1000000000000000 of (sd, rng') \<Rightarrow>
      (case run_rep c obj sd subsample of
         Inl e \<Rightarrow> Inl e
       | Inr r \<Rightarrow>
           (case run_reps c obj subsample rest rng' of
              Inl e \<Rightarrow> Inl e
            | Inr rs \<Rightarrow> Inr (r # rs))))"

text \<open>The first \<open>n\<close> values that a generator gives to \<^verbatim>\<open>randint(0, 1e15)\<close>, in order.\<close>

fun draw_seeds :: "'g collab \<Rightarrow> 'g \<Rightarrow> nat \<Rightarrow> int list" where
  "draw_seeds c rng 0 = []"
| "draw_seeds c rng (Suc n) =
     (case randint c rng 1000000000000000 of (sd, rng') \<Rightarrow> sd # draw_seeds c rng' n)"

text \<open>
  \<^verbatim>\<open>run\<close>. A seed that Python takes for false (None or 0) is replaced by a draw from the
  process-wide generator; \<^verbatim>\<open>RandomState\<close> refuses a seed outside 0 .. 2^32 - 1.
\<close>

definition run ::
  "'g collab \<Rightarrow> pca_obj \<Rightarrow> 'g \<Rightarrow> int option \<Rightarrow> int option \<Rightarrow> bool \<Rightarrow> error + (pca_obj \<times> 'g)" where
  "run c obj g nreplicates sd0 subsample =
     (let nrep = (case nreplicates of None \<Rightarrow> 1 | Some n \<Rightarrow> if n = 0 then 1 else n) in
      (case (case sd0 of None \<Rightarrow> seed c g | Some s \<Rightarrow> if s = 0 then seed c g else (s, g)) of
         (sd, g') \<Rightarrow>
           if sd < 0 \<or> 4294967296 \<le> sd then Inl ValueError
           else
             (case run_reps c obj subsample (0 # [1..<nat nrep]) (random_state c sd) of
                Inl e \<Rightarrow> Inl e
              | Inr rs \<Rightarrow>
                  Inr (obj\<lparr>pcaxes := Some (map fst rs), variances := Some (map snd rs)\<rparr>, g'))))"

section \<open>Replicate reconciliation and aggregation (\<^verbatim>\<open>draw\<close>, lines 350-530)\<close>

text \<open>A column index of numpy: a negative one counts from the last column.\<close>

definition np_index :: "nat \<Rightarrow> int \<Rightarrow> nat option" where
  "np_index n i =
     (if 0 \<le> i \<and> i < int n then Some (nat i)
      else if - int n \<le> i \<and> i < 0 then Some (nat (int n + i))
      else None)"

text \<open>\<^verbatim>\<open>m[:, ax]\<close>, read and written.\<close>

definition get_column :: "coords \<Rightarrow> int \<Rightarrow> error + real list" where
  "get_column m ax =
     (case np_index (ncols m) ax of
        None \<Rightarrow> Inl IndexError
      | Some j \<Rightarrow> Inr (map (\<lambda>r. r ! j) m))"

definition set_column :: "coords \<Rightarrow> int \<Rightarrow> real list \<Rightarrow> coords" where
  "set_column m ax vals =
     (case np_index (ncols m) ax of
        None \<Rightarrow> m
      | Some j \<Rightarrow> map (\<lambda>(r, v). r[j := v]) (zip m vals))"

definition mean :: "real list \<Rightarrow> real" where
  "mean xs = sum_list xs / real (length xs)"

text \<open>
  \<^verbatim>\<open>LinearRegression().fit(x, y).coef_[0][0]\<close> for one predictor: the least-squares
  slope of the centred data, 0 for a constant predictor; ValueError without a sample or
  with columns of different lengths.
\<close>

definition linreg_coef :: "real list \<Rightarrow> real list \<Rightarrow> error + real" where
  "linreg_coef x y =
     (if length x \<noteq> length y \<or> x = [] then Inl ValueError
      else
        (let mx = mean x; my = mean y;
             sxx = sum_list (map (\<lambda>a. (a - mx) * (a - mx)) x);
             sxy = sum_list (map (\<lambda>(a, b). (a - mx) * (b - my)) (zip x y))
         in Inr (if sxx = 0 then 0 else sxy / sxx)))"

text \<open>
  The body of the loop of lines 377-391 for replicate \<open>i\<close> and axis \<open>ax\<close>:
  \<^verbatim>\<open>datas\<close> is \<^verbatim>\<open>self.pcaxes\<close> itself, so the negated column is written into
  the stored results.
\<close>

definition align_axis :: "coords list \<Rightarrow> nat \<Rightarrow> int \<Rightarrow> error + coords list" where
  "align_axis datas i ax =
     (case get_column (datas ! 0) ax of
        Inl e \<Rightarrow> Inl e
      | Inr orig \<Rightarrow>
     (case get_column (datas ! i) ax of
        Inl e \<Rightarrow> Inl e
      | Inr new \<Rightarrow>
     (case linreg_coef orig new of
        Inl e \<Rightarrow> Inl e
      | Inr c0 \<Rightarrow>
     (case linreg_coef orig (map uminus new) of
        Inl e \<Rightarrow> Inl e
      | Inr c1 \<Rightarrow>
          Inr (if c1 > c0
               then datas[i := set_column (datas ! i) ax (map uminus new)]
               else datas)))))"

text \<open>The pairs (replicate, axis) in the order in which the two nested loops visit them.\<close>

definition align_steps :: "nat \<Rightarrow> int \<Rightarrow> int \<Rightarrow> (nat \<times> int) list" where
  "align_steps n ax0 ax1 = concat (map (\<lambda>i. [(i, ax0), (i, ax1)]) [1..<n])"

text \<open>
  The loop itself. An exception leaves the columns negated so far in place: the result
  is the stored replicates as they are when the loop stops, and the error that stopped it.
\<close>

fun reconcile :: "coords list \<Rightarrow> (nat \<times> int) list \<Rightarrow> coords list \<times> error option" where
  "reconcile datas [] = (datas, None)"
| "reconcile datas ((i, ax) # rest) =
     (case align_axis datas i ax of
        Inl e \<Rightarrow> (datas, Some e)
      | Inr datas' \<Rightarrow> reconcile datas' rest)"

text \<open>
  Replicate \<open>i\<close> is aligned with the reference on axis \<open>ax\<close> when both fits succeed and
  the slope of the reversed column is not the larger one, so that the loop body leaves the
  replicate as it is.
\<close>

definition aligned :: "coords list \<Rightarrow> nat \<Rightarrow> int \<Rightarrow> bool" where
  "aligned datas i ax =
     (case get_column (datas ! 0) ax of
        Inl e \<Rightarrow> False
      | Inr orig \<Rightarrow>
     (case get_column (datas ! i) ax of
        Inl e \<Rightarrow> False
      | Inr new \<Rightarrow>
     (case linreg_coef orig new of
        Inl e \<Rightarrow> False
      | Inr c0 \<Rightarrow>
     (case linreg_coef orig (map uminus new) of
        Inl e \<Rightarrow> False
      | Inr c1 \<Rightarrow> \<not> c1 > c0))))"

text \<open>
  The replicates that \<^verbatim>\<open>run\<close> stores are arrays of one shape: every replicate is
  rectangular and has as many components as replicate 0.
\<close>

definition same_shape :: "coords list \<Rightarrow> bool" where
  "same_shape datas = list_all (\<lambda>m. rect m \<and> ncols m = ncols (datas ! 0)) datas"

text \<open>
  \<^verbatim>\<open>NearestCentroid().fit(X, y).centroids_\<close>: for each class, in increasing order, the
  mean of the rows of \<open>X\<close> that carry it; ValueError when \<open>X\<close> and \<open>y\<close> differ in length
  or fewer than two classes occur.
\<close>

definition nearest_centroid_fit :: "(real \<times> real) list \<Rightarrow> nat list \<Rightarrow> error + (real \<times> real) list" where
  "nearest_centroid_fit X y =
     (if length X \<noteq> length y then Inl ValueError
      else if length (remdups y) < 2 then Inl ValueError
      else Inr (map (\<lambda>cl. (let rows = map fst (filter (\<lambda>(x, l). l = cl) (zip X y))
                            in (mean (map fst rows), mean (map snd rows))))
                  (sort (remdups y))))"

text \<open>The points of one replicate on the two displayed axes.\<close>

definition points :: "coords \<Rightarrow> int \<Rightarrow> int \<Rightarrow> error + (real \<times> real) list" where
  "points m ax0 ax1 =
     (case get_column m ax0 of
        Inl e \<Rightarrow> Inl e
      | Inr xs \<Rightarrow> (case get_column m ax1 of Inl e \<Rightarrow> Inl e | Inr ys \<Rightarrow> Inr (zip xs ys)))"

fun collect :: "(error + 'a) list \<Rightarrow> error + 'a list" where
  "collect [] = Inr []"
| "collect (Inl e # rest) = Inl e"
| "collect (Inr x # rest) = (case collect rest of Inl e \<Rightarrow> Inl e | Inr xs \<Rightarrow> Inr (x # xs))"

text \<open>
  Lines 504-512: \<^verbatim>\<open>Xarr\<close> stacks the points of the replicates, \<^verbatim>\<open>yarr\<close> repeats the
  sample indices once per replicate, and the classifier is fitted to them.
\<close>

definition centroids :: "coords list \<Rightarrow> int \<Rightarrow> int \<Rightarrow> nat \<Rightarrow> error + (real \<times> real) list" where
  "centroids datas ax0 ax1 nnames =
     (case collect (map (\<lambda>m. points m ax0 ax1) datas) of
        Inl e \<Rightarrow> Inl e
      | Inr clouds \<Rightarrow>
          nearest_centroid_fit (concat clouds) (concat (replicate (length datas) [0..<nnames])))"

text \<open>\<^verbatim>\<open>"{}".format(n)\<close> for a natural number.\<close>

fun string_of_nat :: "nat \<Rightarrow> string" where
  "string_of_nat n =
     (if n < 10 then [char_of (48 + n)]
      else string_of_nat (n div 10) @ [char_of (48 + n mod 10)])"

declare string_of_nat.simps [simp del]

text \<open>What \<^verbatim>\<open>draw\<close> hands to the plotting library: one cloud, or the clouds and the centroids.\<close>

datatype plot = Scatter "(real \<times> real) list" | Clouds "(real \<times> real) list list" "(real \<times> real) list"

text \<open>
  \<^verbatim>\<open>draw\<close>, returning the object as it is left and the outcome. Of the styling code only
  the lookup of every sample's population (line 461) is kept, since it can raise; colours,
  shapes, labels and the canvas are left out.
\<close>

definition draw :: "pca_obj \<Rightarrow> int \<Rightarrow> int \<Rightarrow> pca_obj \<times> (error + plot)" where
  "draw obj ax0 ax1 =
     (case (pcaxes obj, variances obj) of
        (Some datas, Some vs) \<Rightarrow>
          (case datas of
             [] \<Rightarrow> (obj, Inl KeyError)
           | d0 # _ \<Rightarrow>
               if \<not> max ax0 ax1 < int (ncols d0)
               then (obj, Inl (AssertionError
                      (''data set only has '' @ string_of_nat (ncols d0) @ '' axes.'')))
               else
                 (case reconcile datas (align_steps (length datas) ax0 ax1) of
                    (datas', Some e) \<Rightarrow> (obj\<lparr>pcaxes := Some datas'\<rparr>, Inl e)
                  | (datas', None) \<Rightarrow>
                      (obj\<lparr>pcaxes := Some datas'\<rparr>,
                       if \<not> list_all (\<lambda>n. list_ex (\<lambda>(pop, vals). n \<in> set vals) (imap obj))
                                (names obj)
                       then Inl KeyError
                       else if length datas < 2 then
                         (case points (datas' ! 0) ax0 ax1 of
                            Inl e \<Rightarrow> Inl e
                          | Inr pts \<Rightarrow> Inr (Scatter pts))
                       else
                         (case collect (map (\<lambda>m. points m ax0 ax1) datas') of
                            Inl e \<Rightarrow> Inl e
                          | Inr clouds \<Rightarrow>
                              (case centroids datas' ax0 ax1 (length (names obj)) of
                                 Inl e \<Rightarrow> Inl e
                               | Inr cs \<Rightarrow> Inr (Clouds clouds cs))))))
      | _ \<Rightarrow> (obj, Inl AttributeError))"

section \<open>A small environment for concrete runs\<close>

text \<open>
  Concrete collaborators on which the engine can be evaluated: a source of three samples
  and three markers, the first two markers on one locus; an imputer that fills a missing
  call with the largest call of the sample's population at that marker; a sampler that
  picks, for each locus, the marker that the seed selects; a decomposition that returns
  the data as coordinates; a clustering by the sign of the first coordinate; a
  generator whose state is a counter; and ties of \<^verbatim>\<open>round\<close> going to the even side.
\<close>

definition demo_snps :: genos where
  "demo_snps = [[0, 0, 0], [0, 2, 9], [2, 2, 2]]"

definition demo_extracter :: "imap \<Rightarrow> minmap \<Rightarrow> real \<Rightarrow> genos \<times> nat list \<times> string list \<times> bool" where
  "demo_extracter im mm cov = (demo_snps, [0, 0, 1], [''a'', ''b'', ''c''], True)"

definition pop_mates :: "imap \<Rightarrow> string \<Rightarrow> string list" where
  "pop_mates im n = concat (map snd (filter (\<lambda>(pop, vals). n \<in> set vals) im))"

definition demo_impute :: "nat \<Rightarrow> genos \<Rightarrow> string list \<Rightarrow> imap \<Rightarrow> genos \<times> nat" where
  "demo_impute g m nms im =
     (map (\<lambda>i. map (\<lambda>j. if m ! i ! j = 9
                         then fold max
                                (map (\<lambda>k. m ! k ! j)
                                   (filter (\<lambda>k. m ! k ! j \<noteq> 9 \<and>
                                                nms ! k \<in> set (pop_mates im (nms ! i)))
                                      [0..<length m]))
                                0
                         else m ! i ! j)
                  [0..<length (m ! i)])
        [0..<length m], g)"

definition demo_subsample :: "nat list \<Rightarrow> int \<Rightarrow> nat list" where
  "demo_subsample smap sd =
     map (\<lambda>l. (let cols = filter (\<lambda>j. smap ! j = l) [0..<length smap]
                in cols ! (nat sd mod length cols)))
       (remdups smap)"

definition demo_pca :: "genos \<Rightarrow> coords \<times> real list" where
  "demo_pca m = (map (map real_of_int) m, [1])"

definition demo_kmeans :: "nat \<Rightarrow> py_value \<Rightarrow> coords \<Rightarrow> int list \<times> nat" where
  "demo_kmeans g K xs = (map (\<lambda>r. if 0 < hd r then 1 else 0) xs, g)"

definition demo_randint :: "nat \<Rightarrow> int \<Rightarrow> int \<times> nat" where
  "demo_randint g high = (int g mod high, Suc g)"

definition demo :: "nat collab" where
  "demo = \<lparr>snps_extracter = demo_extracter, impute_sample = demo_impute,
           jsubsample_snps = demo_subsample, pca_fit = demo_pca, kmeans_fit = demo_kmeans,
           randint = demo_randint, random_state = nat,
           round_tie_up = (\<lambda>y. odd \<lfloor>y\<rfloor>)\<rparr>"

text \<open>The object that the constructor builds on this source, before imputation.\<close>

definition demo_obj :: "py_value \<Rightarrow> int \<Rightarrow> pca_obj" where
  "demo_obj method n =
     init_obj method [] [] (1 / 2) (9 / 10) n demo_snps [0, 0, 1] [''a'', ''b'', ''c'']
       [(''a'', Num 0), (''b'', Num (33 / 100)), (''c'', Num 0)]"

text \<open>
  An object holding two replicates of three samples on two components; the second
  replicate has the first axis reversed.
\<close>

definition demo_drawn :: pca_obj where
  "demo_drawn =
     (demo_obj PyNone 5)
       \<lparr>pcaxes := Some [[[-1, 1], [0, -2], [1, 1]], [[2, 1], [0, -2], [-2, 1]]],
        variances := Some [[3 / 4, 1 / 4], [3 / 4, 1 / 4]]\<rparr>"

text \<open>A full run: the constructor, then \<^verbatim>\<open>run\<close>.\<close>

definition full_run ::
  "'g collab \<Rightarrow> 'g \<Rightarrow> string \<Rightarrow> py_value \<Rightarrow> imap \<Rightarrow> minmap \<Rightarrow> real \<Rightarrow> real \<Rightarrow> int
     \<Rightarrow> int option \<Rightarrow> int option \<Rightarrow> bool \<Rightarrow> error + (pca_obj \<times> 'g)" where
  "full_run c g data method im mm mcov tcov n nreplicates sd subsample =
     (case init c g data method im mm mcov tcov n of
        Inl e \<Rightarrow> Inl e
      | Inr (obj, g') \<Rightarrow> run c obj g' nreplicates sd subsample)"

section \<open>Missing-data accounting: what \<^verbatim>\<open>self.missing\<close> holds\<close>

lemma index_of_mem: "n \<in> set xs \<Longrightarrow> \<exists>i. index_of xs n = Some i \<and> i < length xs \<and> xs ! i = n"
  by (induction xs) auto


lemma record_missing_eq:
  "set rest \<subseteq> set nms \<Longrightarrow> length nms \<le> length miss \<Longrightarrow>
   record_missing up miss nms rest fr =
     Inr (map (\<lambda>(n, w). if n \<in> set rest then (n, py_round2 up (miss ! the (index_of nms n))) else (n, w)) fr)"
proof (induction rest arbitrary: fr)
  case Nil
  then show ?case by (simp add: case_prod_unfold)
next
  case (Cons name rest)
  from Cons.prems obtain i where i: "index_of nms name = Some i" "i < length nms"
    using index_of_mem[of name nms] by auto
  have "record_missing up miss nms (name # rest) fr =
        record_missing up miss nms rest (set_label fr name (py_round2 up (miss ! i)))"
    using i Cons.prems by simp
  also have "\<dots> = Inr (map (\<lambda>(n, w). if n \<in> set rest then (n, py_round2 up (miss ! the (index_of nms n))) else (n, w))
       (set_label fr name (py_round2 up (miss ! i))))"
    using Cons.IH Cons.prems by simp
  also have "\<dots> = Inr (map (\<lambda>(n, w). if n \<in> set (name # rest) then (n, py_round2 up (miss ! the (index_of nms n))) else (n, w)) fr)"
    using i by (auto simp: set_label_def)
  finally show ?case .
qed

lemma missing_frame_eq:
  assumes "length nms \<le> length m"
  shows "missing_frame up m nms =
     Inr (map (\<lambda>n. (n, py_round2 up (miss_rows m ! the (index_of nms n)))) nms)"
proof -
  have "length nms \<le> length (miss_rows m)" using assms by (simp add: miss_rows_def)
  then show ?thesis
    unfolding missing_frame_def
    by (subst record_missing_eq) (auto simp: comp_def)
qed








section \<open>Kmeans refinement: how many passes, and what is returned\<close>

lemma kmeans_iters_shape:
  "kmeans_iters c K mc its im sm g ps0 = Inr (res, sm', g', ps) \<Longrightarrow>
     (res = None \<and> 4 \<notin> fst ` set its \<and> ps = ps0 @ map snd its) \<or>
     (res \<noteq> None \<and> (\<exists>pre cov rest. its = pre @ (4, cov) # rest \<and> 4 \<notin> fst ` set pre \<and>
         ps = ps0 @ map snd pre @ [cov]))"
proof (induction its arbitrary: im sm g ps0)
  case Nil
  then show ?case by simp
next
  case (Cons a its)
  obtain it cov where a: "a = (it, cov)" by (cases a)
  show ?case
  proof (cases "it = 4")
    case True
    with Cons.prems a have "res \<noteq> None" "ps = ps0 @ [cov]"
      by (auto simp: Let_def split: prod.splits)
    with True a show ?thesis by (intro disjI2) (auto intro: exI[of _ "[]"])
  next
    case False
    with Cons.prems a obtain im' sm1 g1 where
      rec: "kmeans_iters c K mc its im' sm1 g1 (ps0 @ [cov]) = Inr (res, sm', g', ps)"
      by (auto simp: Let_def split: prod.splits sum.splits)
    from Cons.IH[OF rec] show ?thesis
    proof
      assume "res = None \<and> 4 \<notin> fst ` set its \<and> ps = (ps0 @ [cov]) @ map snd its"
      with False a show ?thesis by auto
    next
      assume "res \<noteq> None \<and> (\<exists>pre cov' rest. its = pre @ (4, cov') # rest \<and> 4 \<notin> fst ` set pre \<and>
         ps = (ps0 @ [cov]) @ map snd pre @ [cov'])"
      then obtain pre cov' rest where r: "res \<noteq> None" "its = pre @ (4, cov') # rest"
        "4 \<notin> fst ` set pre" "ps = (ps0 @ [cov]) @ map snd pre @ [cov']" by blast
      have "a # its = (a # pre) @ (4, cov') # rest" using r(2) by simp
      moreover have "4 \<notin> fst ` set (a # pre)" using r(3) False a by auto
      moreover have "ps = ps0 @ map snd (a # pre) @ [cov']" using r(4) a by simp
      ultimately show ?thesis using r(1) by blast
    qed
  qed
qed

lemma enumerate_split:
  assumes "zip [0..<length xs] xs = pre @ (k, cov) # rest" and "k \<notin> fst ` set pre"
  shows "k < length xs \<and> map snd pre @ [cov] = take (Suc k) xs"
proof -
  let ?z = "zip [0..<length xs] xs"
  have len: "length ?z = length xs" by simp
  have fsts: "map fst ?z = [0..<length xs]" by simp
  have snds: "map snd ?z = xs" by simp
  let ?p = "length pre"
  have p: "?p < length xs" using assms(1) len by (metis length_append length_Cons less_add_Suc1 add_Suc_right)
  have "?z ! ?p = (k, cov)" using assms(1) by simp
  moreover have "?z ! ?p = (?p, xs ! ?p)" using p by simp
  ultimately have k: "k = ?p" and cov: "cov = xs ! ?p" by auto
  have "map snd (take (Suc ?p) ?z) = take (Suc ?p) xs" by (simp add: take_map[symmetric] del: take_zip)
  moreover have "take (Suc ?p) ?z = pre @ [(k, cov)]" using assms(1) by simp
  ultimately show ?thesis using k p by simp
qed

lemma linspace_length: "linspace a b n = Inr xs \<Longrightarrow> length xs = nat n"
  by (auto simp: linspace_def split: if_splits)

text \<open>
  Claim C1. The claim asks for exactly \<open>niters\<close> passes and for the matrix of the last one.
  The loop tests \<^verbatim>\<open>it == 4\<close>, so whenever \<^verbatim>\<open>_impute_kmeans\<close> returns normally: with
  fewer than five iterations every threshold of \<^verbatim>\<open>linspace\<close> has been used and the result
  is None; with five or more, the result is the matrix of the fifth pass and only the first
  five thresholds have been used.
\<close>

theorem impute_kmeans_returns_on_fifth_pass:
  assumes "impute_kmeans c obj g tcov n = Inr (res, smap, g', passes)"
  shows "\<exists>iters. linspace tcov (mincov obj) n = Inr iters \<and> length iters = nat n \<and>
           (if n < 5 then res = None \<and> passes = iters
            else res \<noteq> None \<and> passes = take 5 iters)"
proof -
  from assms obtain iters where it: "linspace tcov (mincov obj) n = Inr iters"
    and k: "kmeans_iters c (impute_method obj) (mincov obj) (zip [0..<length iters] iters)
              [(PyStr ''global'', names obj)] (snpsmap obj) g [] = Inr (res, smap, g', passes)"
    by (auto simp: impute_kmeans_def split: sum.splits)
  have len: "length iters = nat n" using it by (rule linspace_length)
  let ?z = "zip [0..<length iters] iters"
  have fsts: "fst ` set ?z = {0..<length iters}"
    by (metis length_upt map_fst_zip set_map set_upt minus_nat.diff_0)
  from kmeans_iters_shape[OF k] show ?thesis
  proof
    assume a: "res = None \<and> 4 \<notin> fst ` set ?z \<and> passes = [] @ map snd ?z"
    then have "\<not> 4 < length iters" using fsts by auto
    then have "n < 5" using len by linarith
    moreover have "passes = iters" using a by simp
    ultimately show ?thesis using it len a by auto
  next
    assume "res \<noteq> None \<and> (\<exists>pre cov rest. ?z = pre @ (4, cov) # rest \<and> 4 \<notin> fst ` set pre \<and>
         passes = [] @ map snd pre @ [cov])"
    then obtain pre cov rest where r: "res \<noteq> None" "?z = pre @ (4, cov) # rest"
      "4 \<notin> fst ` set pre" "passes = map snd pre @ [cov]" by auto
    from enumerate_split[OF r(2,3)] have "4 < length iters" "passes = take 5 iters"
      using r(4) by (auto simp: eval_nat_numeral)
    then show ?thesis using it len r(1) by auto
  qed
qed

lemma demo_kmeans_3:
  "impute_kmeans demo (demo_obj (PyInt 2) 3) (1::nat) (9 / 10) 3 =
     Inr (None, [0, 0, 1], 4, [9 / 10, 7 / 10, 1 / 2])"
  by code_simp

lemma demo_kmeans_7:
  "impute_kmeans demo (demo_obj (PyInt 2) 7) (1::nat) (9 / 10) 7 =
     Inr (Some [[0, 0, 0], [0, 2, 0], [2, 2, 2]], [0, 0, 1], 5,
          [9 / 10, 5 / 6, 23 / 30, 7 / 10, 19 / 30])"
  by code_simp

theorem impute_kmeans_returns_on_fifth_pass_witness:
  "impute_kmeans demo (demo_obj (PyInt 2) 3) (1::nat) (9 / 10) 3 =
     Inr (None, [0, 0, 1], 4, [9 / 10, 7 / 10, 1 / 2]) \<and>
   impute_kmeans demo (demo_obj (PyInt 2) 7) (1::nat) (9 / 10) 7 =
     Inr (Some [[0, 0, 0], [0, 2, 0], [2, 2, 2]], [0, 0, 1], 5,
          [9 / 10, 5 / 6, 23 / 30, 7 / 10, 19 / 30]) \<and>
   linspace (9 / 10) (mincov (demo_obj (PyInt 2) 7)) 7 =
     Inr [9 / 10, 5 / 6, 23 / 30, 7 / 10, 19 / 30, 17 / 30, 1 / 2]"
proof -
  from impute_kmeans_returns_on_fifth_pass[OF demo_kmeans_7]
  obtain iters where "linspace (9 / 10) (mincov (demo_obj (PyInt 2) 7)) 7 = Inr iters"
    by blast
  moreover have "linspace (9 / 10) (mincov (demo_obj (PyInt 2) 7)) 7 =
     Inr [9 / 10, 5 / 6, 23 / 30, 7 / 10, 19 / 30, 17 / 30, 1 / 2]"
    by code_simp
  ultimately show ?thesis using demo_kmeans_3 demo_kmeans_7 by simp
qed


section \<open>The null policy and the constructor's opt-out\<close>

lemma impute_null_length: "length (impute_null m) = length m"
  by (simp add: impute_null_def)

lemma impute_null_nth:
  "i < length m \<Longrightarrow> impute_null m ! i = map (\<lambda>v. if v = 9 then 0 else v) (m ! i)"
  by (simp add: impute_null_def)

lemma impute_null_no9: "r \<in> set (impute_null m) \<Longrightarrow> 9 \<notin> set r"
  by (auto simp: impute_null_def)

lemma impute_null_changes: "r \<in> set m \<Longrightarrow> 9 \<in> set r \<Longrightarrow> impute_null m \<noteq> m"
  using impute_null_no9 by metis

text \<open>
  Claim C6. When \<^verbatim>\<open>impute_method\<close> is neither "sample" nor an integer, \<^verbatim>\<open>_impute_data\<close>
  changes nothing but the matrix; every entry equal to 9 becomes 0, the code of the
  reference allele, and every other entry is kept; the population map plays no part, so
  another map gives the same matrix; and no 9 is left.
\<close>

theorem null_policy_fills_with_zero:
  assumes "impute_method obj \<noteq> PyStr ''sample''" and "\<not> is_int (impute_method obj)"
    and "snps obj = Some m"
  shows "impute_data c obj g = Inr (obj\<lparr>snps := Some (impute_null m)\<rparr>, g) \<and>
         impute_data c (obj\<lparr>imap := im\<rparr>) g = Inr (obj\<lparr>imap := im, snps := Some (impute_null m)\<rparr>, g) \<and>
         length (impute_null m) = length m \<and>
         (\<forall>i<length m. length (impute_null m ! i) = length (m ! i) \<and>
            (\<forall>j<length (m ! i). impute_null m ! i ! j = (if m ! i ! j = 9 then 0 else m ! i ! j))) \<and>
         (\<forall>r\<in>set (impute_null m). 9 \<notin> set r)"
  using assms by (simp add: impute_data_def impute_null_length impute_null_nth impute_null_no9)

theorem null_policy_fills_with_zero_witness:
  "impute_method (demo_obj PyNone 5) \<noteq> PyStr ''sample'' \<and> \<not> is_int (impute_method (demo_obj PyNone 5)) \<and>
   snps (demo_obj PyNone 5) = Some [[0, 0, 0], [0, 2, 9], [2, 2, 2]] \<and>
   impute_data demo (demo_obj PyNone 5) (0::nat) =
     Inr ((demo_obj PyNone 5)\<lparr>snps := Some [[0, 0, 0], [0, 2, 0], [2, 2, 2]]\<rparr>, 0)"
  using null_policy_fills_with_zero[of "demo_obj PyNone 5" "[[0, 0, 0], [0, 2, 9], [2, 2, 2]]" demo 0]
  by (simp add: demo_obj_def init_obj_def demo_snps_def impute_null_def)

text \<open>
  Claim C9. For a source whose extractor reports missing values, the constructor called
  with \<^verbatim>\<open>impute_method=False\<close> stores the extracted matrix as it is; called with None it
  stores the matrix with every 9 overwritten by 0; called with any value other than False
  it runs \<^verbatim>\<open>_impute_data\<close>. The two stored matrices differ as soon as the extracted
  matrix holds a 9.
\<close>

theorem init_none_is_not_false:
  assumes "\<not> suffix ''.vcf'' data"
    and "snps_extracter c im (if mm \<noteq> [] then mm else map (\<lambda>(i, _). (i, 1)) im) mcov
           = (m, smap, nms, True)"
    and "length nms \<le> length m"
  shows "\<exists>fr. missing_frame (round_tie_up c) m nms = Inr fr \<and>
     init c g data (PyBool False) im mm mcov tcov n =
       Inr (init_obj (PyBool False) im (if mm \<noteq> [] then mm else map (\<lambda>(i, _). (i, 1)) im)
              mcov tcov n m smap nms fr, g) \<and>
     init c g data PyNone im mm mcov tcov n =
       Inr (init_obj PyNone im (if mm \<noteq> [] then mm else map (\<lambda>(i, _). (i, 1)) im)
              mcov tcov n (impute_null m) smap nms fr, g) \<and>
     (\<forall>method. method \<noteq> PyBool False \<longrightarrow>
        init c g data method im mm mcov tcov n =
          impute_data c (init_obj method im (if mm \<noteq> [] then mm else map (\<lambda>(i, _). (i, 1)) im)
              mcov tcov n m smap nms fr) g) \<and>
     (\<forall>r\<in>set (impute_null m). 9 \<notin> set r) \<and>
     (list_ex (\<lambda>r. 9 \<in> set r) m \<longrightarrow> impute_null m \<noteq> m)"
proof -
  from assms(3) obtain fr where fr: "missing_frame (round_tie_up c) m nms = Inr fr"
    by (simp add: missing_frame_eq)
  have "impute_null m \<noteq> m" if "list_ex (\<lambda>r. 9 \<in> set r) m"
    using that impute_null_changes by (auto simp: list_ex_iff)
  then show ?thesis
    using assms(1,2) fr
    by (auto simp: init_def Let_def impute_data_def init_obj_def impute_null_no9)
qed

theorem init_none_is_not_false_witness:
  "\<not> suffix ''.vcf'' ''x.hdf5'' \<and>
   snps_extracter demo [] [] (1 / 2) = (demo_snps, [0, 0, 1], [''a'', ''b'', ''c''], True) \<and>
   init demo (0::nat) ''x.hdf5'' (PyBool False) [] [] (1 / 2) (9 / 10) 5 =
     Inr (demo_obj (PyBool False) 5, 0) \<and>
   init demo (0::nat) ''x.hdf5'' PyNone [] [] (1 / 2) (9 / 10) 5 =
     Inr ((demo_obj PyNone 5)\<lparr>snps := Some [[0, 0, 0], [0, 2, 0], [2, 2, 2]]\<rparr>, 0)"
proof -
  have vcf: "\<not> suffix ''.vcf'' ''x.hdf5''"
    by (simp add: suffix_def)
  have ext: "snps_extracter demo [] (if [] \<noteq> [] then [] else map (\<lambda>(i, _). (i, 1)) []) (1 / 2)
               = (demo_snps, [0, 0, 1], [''a'', ''b'', ''c''], True)"
    by (simp add: demo_def demo_extracter_def)
  have len: "length [''a'', ''b'', ''c''] \<le> length demo_snps"
    by (simp add: demo_snps_def)
  have fr: "missing_frame (round_tie_up demo) demo_snps [''a'', ''b'', ''c''] =
              Inr [(''a'', Num 0), (''b'', Num (33 / 100)), (''c'', Num 0)]"
    by (simp add: demo_snps_def missing_frame_def miss_rows_def np_divide_def count9_def
        ncols_def set_label_def round_nearest_def)
  have nul: "impute_null demo_snps = [[0, 0, 0], [0, 2, 0], [2, 2, 2]]"
    by (simp add: demo_snps_def impute_null_def)
  from init_none_is_not_false[OF vcf ext len, of 0 "9 / 10" 5] fr nul
  have "init demo (0::nat) ''x.hdf5'' (PyBool False) [] [] (1 / 2) (9 / 10) 5 =
          Inr (demo_obj (PyBool False) 5, 0)"
    and "init demo (0::nat) ''x.hdf5'' PyNone [] [] (1 / 2) (9 / 10) 5 =
          Inr ((demo_obj PyNone 5)\<lparr>snps := Some [[0, 0, 0], [0, 2, 0], [2, 2, 2]]\<rparr>, 0)"
    by (auto simp: demo_obj_def init_obj_def)
  then show ?thesis using vcf ext by simp
qed


section \<open>Drawing: the axis check and the stored replicates\<close>

lemma align_axis_frame:
  "align_axis d i ax = Inr d' \<Longrightarrow> length d' = length d \<and> (\<forall>k. k \<noteq> i \<longrightarrow> d' ! k = d ! k)"
  by (auto simp: align_axis_def split: sum.splits if_splits)

lemma reconcile_frame:
  "reconcile d steps = (d', e) \<Longrightarrow> k \<notin> fst ` set steps \<Longrightarrow> length d' = length d \<and> d' ! k = d ! k"
proof (induction steps arbitrary: d)
  case Nil
  then show ?case by simp
next
  case (Cons s steps)
  obtain i ax where s: "s = (i, ax)" by (cases s)
  show ?case
  proof (cases "align_axis d i ax")
    case (Inl err)
    with Cons.prems s show ?thesis by simp
  next
    case (Inr d1)
    with Cons.prems s have r: "reconcile d1 steps = (d', e)" by simp
    from Cons.prems(2) s have k: "k \<noteq> i" "k \<notin> fst ` set steps" by auto
    from Cons.IH[OF r k(2)] align_axis_frame[OF Inr] k(1) show ?thesis by simp
  qed
qed

lemma align_steps_fst: "fst ` set (align_steps n ax0 ax1) \<subseteq> {1..<n}"
  by (auto simp: align_steps_def)



lemma draw_fst:
  "fst (draw obj ax0 ax1) =
     (case (pcaxes obj, variances obj) of
        (Some (d0 # ds), Some vs) \<Rightarrow>
          if max ax0 ax1 < int (ncols d0)
          then obj\<lparr>pcaxes := Some (fst (reconcile (d0 # ds) (align_steps (length (d0 # ds)) ax0 ax1)))\<rparr>
          else obj
      | _ \<Rightarrow> obj)"
proof (cases "pcaxes obj")
  case None
  then show ?thesis by (simp add: draw_def)
next
  case (Some d)
  show ?thesis
  proof (cases "variances obj")
    case None
    with Some show ?thesis by (simp add: draw_def split: list.splits)
  next
    case vs: (Some vs)
    show ?thesis
    proof (cases d)
      case Nil
      with Some vs show ?thesis by (simp add: draw_def)
    next
      case (Cons d0 ds)
      obtain d' e where r: "reconcile (d0 # ds) (align_steps (Suc (length ds)) ax0 ax1) = (d', e)"
        by (cases "reconcile (d0 # ds) (align_steps (Suc (length ds)) ax0 ax1)")
      show ?thesis
        using Some vs Cons r by (cases e) (simp_all add: draw_def)
    qed
  qed
qed


text \<open>
  Claim C4. Whatever the stored replicates and the two axes, and whether or not
  \<^verbatim>\<open>draw\<close> ends in an error, the object it leaves holds as many replicates as before and
  replicate 0 is the one it held before.
\<close>

theorem draw_keeps_reference:
  assumes "pcaxes obj = Some d"
  shows "\<exists>d'. pcaxes (fst (draw obj ax0 ax1)) = Some d' \<and> length d' = length d \<and> d' ! 0 = d ! 0"
proof -
  let ?r = "reconcile d (align_steps (length d) ax0 ax1)"
  have "0 \<notin> fst ` set (align_steps (length d) ax0 ax1)"
    using align_steps_fst[of "length d" ax0 ax1] by auto
  then have "length (fst ?r) = length d \<and> fst ?r ! 0 = d ! 0"
    using reconcile_frame[of d _ "fst ?r" "snd ?r" 0] by simp
  then show ?thesis
    using assms by (cases d; cases "variances obj") (auto simp: draw_fst)
qed

text \<open>
  Claim C8. With results stored, if \<^verbatim>\<open>max(ax0, ax1)\<close> is not below the number of
  components of replicate 0, \<^verbatim>\<open>draw\<close> raises the AssertionError with the message naming
  that number and leaves the object exactly as it was: no column has been reversed and
  nothing has been aggregated or plotted.
\<close>

theorem draw_checks_axes_first:
  assumes "pcaxes obj = Some (d0 # ds)" and "variances obj = Some vs"
    and "int (ncols d0) \<le> max ax0 ax1"
  shows "draw obj ax0 ax1 =
           (obj, Inl (AssertionError (''data set only has '' @ string_of_nat (ncols d0) @ '' axes.'')))"
proof -
  have "\<not> max ax0 ax1 < int (ncols d0)" using assms(3) by linarith
  then show ?thesis
    using assms(1,2) by (simp add: draw_def del: max_less_iff_conj)
qed


lemma demo_draw_01:
  "draw demo_drawn 0 1 =
     (demo_drawn\<lparr>pcaxes := Some [[[-1, 1], [0, -2], [1, 1]], [[-2, 1], [0, -2], [2, 1]]]\<rparr>,
      Inr (Clouds [[(-1, 1), (0, -2), (1, 1)], [(-2, 1), (0, -2), (2, 1)]]
                  [(-3 / 2, 1), (0, -2), (3 / 2, 1)]))"
  by code_simp

lemma demo_reconcile:
  "reconcile [[[-1, 1], [0, -2], [1, 1]], [[2, 1], [0, -2], [-2, 1]]] (align_steps 2 0 1) = ([[[-1, 1], [0, -2], [1, 1]], [[-2, 1], [0, -2], [2, 1]]], None)"
  by code_simp

lemma demo_pcaxes: "pcaxes demo_drawn = Some [[[-1, 1], [0, -2], [1, 1]], [[2, 1], [0, -2], [-2, 1]]]"
  by (simp add: demo_drawn_def)

lemma demo_variances: "variances demo_drawn = Some [[3 / 4, 1 / 4], [3 / 4, 1 / 4]]"
  by (simp add: demo_drawn_def)

theorem draw_keeps_reference_witness:
  "pcaxes demo_drawn = Some [[[-1, 1], [0, -2], [1, 1]], [[2, 1], [0, -2], [-2, 1]]] \<and>
   pcaxes (fst (draw demo_drawn 0 1)) = Some [[[-1, 1], [0, -2], [1, 1]], [[-2, 1], [0, -2], [2, 1]]]"
proof -
  from draw_keeps_reference[OF demo_pcaxes, of 0 1] obtain d' where
    "pcaxes (fst (draw demo_drawn 0 1)) = Some d'" and "d' ! 0 = [[[-1, 1], [0, -2], [1, 1]], [[2, 1], [0, -2], [-2, 1]]] ! 0"
    by blast
  moreover have "pcaxes (fst (draw demo_drawn 0 1)) = Some [[[-1, 1], [0, -2], [1, 1]], [[-2, 1], [0, -2], [2, 1]]]"
    by (simp add: demo_draw_01)
  ultimately show ?thesis using demo_pcaxes by simp
qed

theorem draw_checks_axes_first_witness:
  "pcaxes demo_drawn = Some [[[-1, 1], [0, -2], [1, 1]], [[2, 1], [0, -2], [-2, 1]]] \<and>
   int (ncols [[-1, 1], [0, -2], [1, 1::real]]) \<le> max 0 2 \<and>
   draw demo_drawn 0 2 = (demo_drawn, Inl (AssertionError ''data set only has 2 axes.''))"
proof -
  have nc: "ncols [[-1, 1], [0, -2], [1, 1::real]] = 2" by (simp add: ncols_def)
  have le: "int (ncols [[-1, 1], [0, -2], [1, 1::real]]) \<le> max 0 2" by (simp add: nc)
  have s2: "string_of_nat 2 = ''2''" by code_simp
  from draw_checks_axes_first[OF demo_pcaxes demo_variances le]
  have "draw demo_drawn 0 2 = (demo_drawn, Inl (AssertionError ''data set only has 2 axes.''))"
    by (simp add: nc s2)
  then show ?thesis using le demo_pcaxes by simp
qed


section \<open>Sign reconciliation is a fixed point on its output\<close>

lemma np_index_less: "np_index n ax = Some j \<Longrightarrow> j < n"
  by (auto simp: np_index_def split: if_splits)

lemma zip_map_self: "map (\<lambda>(r, v). f r v) (zip m (map g m)) = map (\<lambda>r. f r (g r)) m"
  by (induction m) auto

lemma set_column_negate:
  assumes "np_index (ncols m) ax = Some j"
  shows "set_column m ax (map uminus (map (\<lambda>r. r ! j) m)) = map (\<lambda>r. r[j := - (r ! j)]) m"
  using assms by (simp add: set_column_def zip_map_self[of "\<lambda>r v. r[j := v]" m "\<lambda>r. - (r ! j)"] comp_def)

lemma ncols_negate: "ncols (map (\<lambda>r. r[j := f r]) m) = ncols m"
  by (cases m) (simp_all add: ncols_def)

lemma rect_negate: "rect m \<Longrightarrow> rect (map (\<lambda>r. r[j := f r]) m)"
  by (simp add: rect_def ncols_negate list_all_iff)

lemma get_column_cases:
  "get_column m ax = Inr col \<Longrightarrow> \<exists>j. np_index (ncols m) ax = Some j \<and> col = map (\<lambda>r. r ! j) m"
  by (auto simp: get_column_def split: option.splits)

lemma flipped_shape:
  assumes "get_column m ax = Inr new"
  shows "ncols (set_column m ax (map uminus new)) = ncols m"
    and "rect m \<Longrightarrow> rect (set_column m ax (map uminus new))"
    and "length (set_column m ax (map uminus new)) = length m"
proof -
  from get_column_cases[OF assms] obtain j where
    j: "np_index (ncols m) ax = Some j" "new = map (\<lambda>r. r ! j) m" by blast
  have eq: "set_column m ax (map uminus new) = map (\<lambda>r. r[j := - (r ! j)]) m"
    using set_column_negate[OF j(1)] j(2) by simp
  show "ncols (set_column m ax (map uminus new)) = ncols m" by (simp add: eq ncols_negate)
  show "rect m \<Longrightarrow> rect (set_column m ax (map uminus new))" by (simp add: eq rect_negate)
  show "length (set_column m ax (map uminus new)) = length m" by (simp add: eq)
qed

lemma flipped_column:
  assumes "rect m" and "get_column m ax = Inr new"
  shows "get_column (set_column m ax (map uminus new)) ax = Inr (map uminus new)"
proof -
  from get_column_cases[OF assms(2)] obtain j where
    j: "np_index (ncols m) ax = Some j" "new = map (\<lambda>r. r ! j) m" by blast
  have eq: "set_column m ax (map uminus new) = map (\<lambda>r. r[j := - (r ! j)]) m"
    using set_column_negate[OF j(1)] j(2) by simp
  have "j < length r" if "r \<in> set m" for r
    using that assms(1) np_index_less[OF j(1)] by (simp add: rect_def list_all_iff)
  then have "map (\<lambda>r. r ! j) (map (\<lambda>r. r[j := - (r ! j)]) m) = map uminus new"
    by (simp add: j(2))
  then show ?thesis
    by (simp add: eq get_column_def ncols_negate j(1))
qed

lemma other_column:
  assumes "get_column m ax' = Inr new'"
    and "np_index (ncols m) ax \<noteq> np_index (ncols m) ax'"
  shows "get_column (set_column m ax' (map uminus new')) ax = get_column m ax"
proof -
  from get_column_cases[OF assms(1)] obtain j' where
    j': "np_index (ncols m) ax' = Some j'" "new' = map (\<lambda>r. r ! j') m" by blast
  have eq: "set_column m ax' (map uminus new') = map (\<lambda>r. r[j' := - (r ! j')]) m"
    using set_column_negate[OF j'(1)] j'(2) by simp
  show ?thesis
  proof (cases "np_index (ncols m) ax")
    case None
    then show ?thesis by (simp add: eq get_column_def ncols_negate)
  next
    case (Some j)
    with assms(2) j'(1) have "j \<noteq> j'" by simp
    then show ?thesis by (simp add: eq get_column_def ncols_negate Some)
  qed
qed

lemma same_axis:
  assumes "np_index (ncols m) ax = np_index (ncols m) ax'"
  shows "get_column m ax = get_column m ax'" and "set_column m ax v = set_column m ax' v"
  using assms by (simp_all add: get_column_def set_column_def)

lemma align_axis_Inr:
  assumes "align_axis d i ax = Inr d1"
  obtains orig new c0 c1 where "get_column (d ! 0) ax = Inr orig"
    and "get_column (d ! i) ax = Inr new"
    and "linreg_coef orig new = Inr c0" and "linreg_coef orig (map uminus new) = Inr c1"
    and "d1 = (if c1 > c0 then d[i := set_column (d ! i) ax (map uminus new)] else d)"
  using assms by (auto simp: align_axis_def split: sum.splits)

lemma align_axis_eval:
  assumes "get_column (d ! 0) ax = Inr orig" and "get_column (d ! i) ax = Inr new"
    and "linreg_coef orig new = Inr c0" and "linreg_coef orig (map uminus new) = Inr c1"
  shows "align_axis d i ax = Inr (if c1 > c0 then d[i := set_column (d ! i) ax (map uminus new)] else d)"
    and "aligned d i ax \<longleftrightarrow> \<not> c1 > c0"
  using assms by (simp_all add: align_axis_def aligned_def)

lemma aligned_fixed: "aligned d i ax \<Longrightarrow> align_axis d i ax = Inr d"
  by (auto simp: align_axis_def aligned_def split: sum.splits)

lemma same_shape_nth: "same_shape d \<Longrightarrow> k < length d \<Longrightarrow> rect (d ! k) \<and> ncols (d ! k) = ncols (d ! 0)"
  by (simp add: same_shape_def list_all_length)

lemma same_shape_update:
  assumes "same_shape d" and "0 < i" and "rect m" and "ncols m = ncols (d ! 0)"
  shows "same_shape (d[i := m])"
proof -
  have ref: "d[i := m] ! 0 = d ! 0" using assms(2) by simp
  have "rect (d[i := m] ! k) \<and> ncols (d[i := m] ! k) = ncols (d ! 0)" if "k < length d" for k
  proof (cases "k = i")
    case True
    with that assms(3,4) show ?thesis by simp
  next
    case False
    with that assms(1) show ?thesis by (simp add: same_shape_def list_all_length)
  qed
  then show ?thesis by (simp add: same_shape_def list_all_length ref)
qed


lemma align_axis_length: "align_axis d i ax = Inr d1 \<Longrightarrow> length d1 = length d"
  by (auto simp: align_axis_def split: sum.splits if_splits)

lemma step_aligns:
  assumes sh: "same_shape d" and i: "0 < i" "i < length d"
    and step: "align_axis d i ax = Inr d1"
  shows "aligned d1 i ax" and "same_shape d1"
proof -
  from step obtain orig new c0 c1 where
    o: "get_column (d ! 0) ax = Inr orig" and n: "get_column (d ! i) ax = Inr new"
    and c0: "linreg_coef orig new = Inr c0" and c1: "linreg_coef orig (map uminus new) = Inr c1"
    and d1: "d1 = (if c1 > c0 then d[i := set_column (d ! i) ax (map uminus new)] else d)"
    by (rule align_axis_Inr)
  from same_shape_nth[OF sh i(2)] have r: "rect (d ! i)" and nc: "ncols (d ! i) = ncols (d ! 0)"
    by simp_all
  let ?m = "set_column (d ! i) ax (map uminus new)"
  show "aligned d1 i ax"
  proof (cases "c1 > c0")
    case False
    with d1 have "d1 = d" by simp
    with align_axis_eval(2)[OF o n c0 c1] False show ?thesis by simp
  next
    case True
    with d1 have d1': "d1 = d[i := ?m]" by simp
    have o': "get_column (d1 ! 0) ax = Inr orig" using o i(1) by (simp add: d1')
    have n': "get_column (d1 ! i) ax = Inr (map uminus new)"
      using flipped_column[OF r n] i(2) by (simp add: d1')
    have c1': "linreg_coef orig (map uminus (map uminus new)) = Inr c0"
      using c0 by (simp add: comp_def)
    from align_axis_eval(2)[OF o' n' c1 c1'] True show ?thesis by simp
  qed
  show "same_shape d1"
  proof (cases "c1 > c0")
    case False
    with d1 sh show ?thesis by simp
  next
    case True
    with d1 have d1': "d1 = d[i := ?m]" by simp
    show ?thesis
      unfolding d1'
      using sh i(1) flipped_shape(2)[OF n r] flipped_shape(1)[OF n] nc
      by (intro same_shape_update) simp_all
  qed
qed

lemma aligned_cong:
  assumes "d2 ! 0 = d ! 0" and "get_column (d2 ! i) ax = get_column (d ! i) ax"
  shows "aligned d2 i ax = aligned d i ax"
  unfolding aligned_def assms ..

lemma step_keeps_aligned:
  assumes sh: "same_shape d" and i: "0 < i" "i < length d" and i': "0 < i'" "i' < length d"
    and al: "aligned d i ax" and step: "align_axis d i' ax' = Inr d2"
  shows "aligned d2 i ax"
proof -
  from step obtain orig' new' c0' c1' where
    o': "get_column (d ! 0) ax' = Inr orig'" and n': "get_column (d ! i') ax' = Inr new'"
    and c0': "linreg_coef orig' new' = Inr c0'"
    and c1': "linreg_coef orig' (map uminus new') = Inr c1'"
    and d2: "d2 = (if c1' > c0' then d[i' := set_column (d ! i') ax' (map uminus new')] else d)"
    by (rule align_axis_Inr)
  show ?thesis
  proof (cases "c1' > c0'")
    case False
    with d2 al show ?thesis by simp
  next
    case True
    with d2 have d2': "d2 = d[i' := set_column (d ! i') ax' (map uminus new')]" by simp
    have ref: "d2 ! 0 = d ! 0" using i'(1) by (simp add: d2')
    show ?thesis
    proof (cases "i' = i")
      case False
      then have "d2 ! i = d ! i" by (simp add: d2')
      with ref al show ?thesis by (simp add: aligned_cong[of d2 d i ax])
    next
      case same: True
      from same_shape_nth[OF sh i(2)] have nc: "ncols (d ! i) = ncols (d ! 0)" by simp
      show ?thesis
      proof (cases "np_index (ncols (d ! 0)) ax = np_index (ncols (d ! 0)) ax'")
        case True
        have "get_column (d ! 0) ax = get_column (d ! 0) ax'"
          and "get_column (d ! i) ax = get_column (d ! i) ax'"
          using True nc by (simp_all add: get_column_def)
        with al o' n' c0' c1' same have "\<not> c1' > c0'" by (simp add: aligned_def)
        with \<open>c1' > c0'\<close> show ?thesis by simp
      next
        case False
        then have "np_index (ncols (d ! i)) ax \<noteq> np_index (ncols (d ! i)) ax'" using nc by simp
        from other_column[OF _ this, of new'] n' same
        have "get_column (d2 ! i) ax = get_column (d ! i) ax"
          using i(2) by (simp add: d2')
        with ref al show ?thesis by (simp add: aligned_cong[of d2 d i ax])
      qed
    qed
  qed
qed

lemma reconcile_aligned_prefix:
  assumes "\<forall>s\<in>set pre. aligned d (fst s) (snd s)"
  shows "reconcile d (pre @ steps) = reconcile d steps"
  using assms
proof (induction pre)
  case Nil
  then show ?case by simp
next
  case (Cons s pre)
  obtain i ax where s: "s = (i, ax)" by (cases s)
  from Cons.prems s have "align_axis d i ax = Inr d" by (simp add: aligned_fixed)
  with Cons s show ?case by simp
qed

lemma reconcile_again:
  assumes "same_shape d"
    and "\<forall>s\<in>set (pre @ steps). 0 < fst s \<and> fst s < length d"
    and "\<forall>s\<in>set pre. aligned d (fst s) (snd s)"
  shows "reconcile (fst (reconcile d steps)) (pre @ steps) = reconcile d steps"
  using assms
proof (induction steps arbitrary: d pre)
  case Nil
  then show ?case using reconcile_aligned_prefix[of pre d "[]"] by simp
next
  case (Cons s steps)
  obtain i ax where s: "s = (i, ax)" by (cases s)
  from Cons.prems(2) s have i: "0 < i" "i < length d" by auto
  show ?case
  proof (cases "align_axis d i ax")
    case (Inl e)
    then have "reconcile d (s # steps) = (d, Some e)" using s by simp
    then show ?thesis using reconcile_aligned_prefix[OF Cons.prems(3), of "s # steps"] by simp
  next
    case (Inr d1)
    have len: "length d1 = length d" using Inr by (rule align_axis_length)
    have sh1: "same_shape d1" and al1: "aligned d1 i ax"
      using step_aligns[OF Cons.prems(1) i Inr] by simp_all
    have pre1: "\<forall>t\<in>set (pre @ [s]). aligned d1 (fst t) (snd t)"
    proof
      fix t assume t: "t \<in> set (pre @ [s])"
      show "aligned d1 (fst t) (snd t)"
      proof (cases "t = s")
        case True
        with al1 s show ?thesis by simp
      next
        case False
        with t have tp: "t \<in> set pre" by simp
        with Cons.prems(2,3) have "0 < fst t" "fst t < length d" "aligned d (fst t) (snd t)"
          by auto
        then show ?thesis using step_keeps_aligned[OF Cons.prems(1) _ _ i _ Inr] by blast
      qed
    qed
    have rng: "\<forall>t\<in>set ((pre @ [s]) @ steps). 0 < fst t \<and> fst t < length d1"
      using Cons.prems(2) len by auto
    from Cons.IH[OF sh1 rng pre1] have
      "reconcile (fst (reconcile d1 steps)) ((pre @ [s]) @ steps) = reconcile d1 steps" .
    moreover have "reconcile d (s # steps) = reconcile d1 steps" using Inr s by simp
    ultimately show ?thesis by simp
  qed
qed

lemma align_steps_range: "s \<in> set (align_steps n ax0 ax1) \<Longrightarrow> 0 < fst s \<and> fst s < n"
  by (auto simp: align_steps_def)

lemma reconcile_length: "length (fst (reconcile d (align_steps n ax0 ax1))) = length d"
proof -
  have "0 \<notin> fst ` set (align_steps n ax0 ax1)" using align_steps_range[of _ n ax0 ax1] by force
  then show ?thesis
    using reconcile_frame[of d "align_steps n ax0 ax1" "fst (reconcile d (align_steps n ax0 ax1))"
        "snd (reconcile d (align_steps n ax0 ax1))" 0] by simp
qed

text \<open>
  Claim C5. For replicates of one shape, running the reconciliation loop on its own output,
  with the same two axes, returns that output unchanged (and stops with the same error,
  if the first run stopped with one).
\<close>

theorem reconcile_fixed_point:
  assumes "same_shape datas"
  shows "reconcile (fst (reconcile datas (align_steps (length datas) ax0 ax1)))
           (align_steps (length (fst (reconcile datas (align_steps (length datas) ax0 ax1)))) ax0 ax1)
         = reconcile datas (align_steps (length datas) ax0 ax1)"
proof -
  have "\<forall>s\<in>set ([] @ align_steps (length datas) ax0 ax1). 0 < fst s \<and> fst s < length datas"
    using align_steps_range by auto
  from reconcile_again[OF assms this] show ?thesis
    by (simp add: reconcile_length)
qed

theorem reconcile_fixed_point_witness:
  "same_shape [[[-1, 1], [0, -2], [1, 1]], [[2, 1], [0, -2], [-2, 1]]] \<and>
   reconcile [[[-1, 1], [0, -2], [1, 1]], [[2, 1], [0, -2], [-2, 1]]] (align_steps 2 0 1) = ([[[-1, 1], [0, -2], [1, 1]], [[-2, 1], [0, -2], [2, 1]]], None) \<and>
   reconcile [[[-1, 1], [0, -2], [1, 1]], [[-2, 1], [0, -2], [2, 1]]] (align_steps 2 0 1) = ([[[-1, 1], [0, -2], [1, 1]], [[-2, 1], [0, -2], [2, 1]]], None)"
proof -
  have sh: "same_shape [[[-1, 1], [0, -2], [1, 1::real]], [[2, 1], [0, -2], [-2, 1]]]"
    by (simp add: same_shape_def rect_def ncols_def)
  have len: "length [[[-1, 1], [0, -2], [1, 1::real]], [[2, 1], [0, -2], [-2, 1]]] = 2" "length [[[-1, 1], [0, -2], [1, 1::real]], [[-2, 1], [0, -2], [2, 1]]] = 2" by simp_all
  from reconcile_fixed_point[OF sh, of 0 1]
  have "reconcile [[[-1, 1], [0, -2], [1, 1]], [[-2, 1], [0, -2], [2, 1]]] (align_steps 2 0 1) = ([[[-1, 1], [0, -2], [1, 1]], [[-2, 1], [0, -2], [2, 1]]], None)"
    by (simp only: len demo_reconcile fst_conv)
  then show ?thesis using sh demo_reconcile by simp
qed

section \<open>Centroids\<close>












section \<open>Reproducibility of a full run\<close>

lemma run_reps_seeds:
  "run_reps c obj sub idxs rng =
     collect (map (\<lambda>sd. run_rep c obj sd sub) (draw_seeds c rng (length idxs)))"
proof (induction idxs arbitrary: rng)
  case Nil
  then show ?case by simp
next
  case (Cons idx idxs)
  obtain sd rng' where d: "randint c rng 1000000000000000 = (sd, rng')"
    by (cases "randint c rng 1000000000000000")
  show ?case
    using Cons.IH[of rng'] d by (cases "run_rep c obj sd sub") simp_all
qed

lemma run_seed_only:
  assumes "s \<noteq> 0"
  shows "run c obj g nreplicates (Some s) sub =
           (if s < 0 \<or> 4294967296 \<le> s then Inl ValueError
            else
              (case collect (map (\<lambda>sd. run_rep c obj sd sub)
                      (draw_seeds c (random_state c s)
                         (Suc (nat (case nreplicates of None \<Rightarrow> 1
                                    | Some n \<Rightarrow> if n = 0 then 1 else n) - 1)))) of
                 Inl e \<Rightarrow> Inl e
               | Inr rs \<Rightarrow>
                   Inr (obj\<lparr>pcaxes := Some (map fst rs), variances := Some (map snd rs)\<rparr>, g))) \<and>
         map_sum id fst (run c obj g nreplicates (Some s) sub) =
           map_sum id fst (run c obj g' nreplicates (Some s) sub)"
proof -
  have f: "run c obj h nreplicates (Some s) sub =
           (if s < 0 \<or> 4294967296 \<le> s then Inl ValueError
            else
              (case collect (map (\<lambda>sd. run_rep c obj sd sub)
                      (draw_seeds c (random_state c s)
                         (Suc (nat (case nreplicates of None \<Rightarrow> 1
                                    | Some n \<Rightarrow> if n = 0 then 1 else n) - 1)))) of
                 Inl e \<Rightarrow> Inl e
               | Inr rs \<Rightarrow>
                   Inr (obj\<lparr>pcaxes := Some (map fst rs), variances := Some (map snd rs)\<rparr>, h)))"
    for h
    using assms by (simp add: run_def Let_def run_reps_seeds del: run_reps.simps draw_seeds.simps)
  show ?thesis
    by (simp add: f split: sum.splits)
qed

lemma init_draws_nothing:
  assumes "method = PyBool False \<or> (method \<noteq> PyStr ''sample'' \<and> \<not> is_int method)"
  shows "init c g data method im mm mcov tcov n =
           map_sum id (\<lambda>p. (fst p, g)) (init c g' data method im mm mcov tcov n)"
proof (cases "suffix ''.vcf'' data")
  case True
  then show ?thesis by (simp add: init_def Let_def)
next
  case False
  obtain m smap nms mvals where
    ex: "snps_extracter c im (if mm \<noteq> [] then mm else map (\<lambda>(i, _). (i, 1)) im) mcov
           = (m, smap, nms, mvals)"
    by (metis prod_cases4)
  show ?thesis
  proof (cases "missing_frame (round_tie_up c) m nms")
    case (Inl e)
    with False ex show ?thesis by (simp add: init_def Let_def)
  next
    case (Inr fr)
    from assms show ?thesis
    proof
      assume "method = PyBool False"
      with False ex Inr show ?thesis by (simp add: init_def Let_def)
    next
      assume "method \<noteq> PyStr ''sample'' \<and> \<not> is_int method"
      with False ex Inr show ?thesis
        by (simp add: init_def Let_def impute_data_def init_obj_def)
    qed
  qed
qed

text \<open>
  Claim C2, as the code has it. Take a seed other than 0 and an imputation policy that
  draws no random number: \<^verbatim>\<open>impute_method\<close> False, or any value that is neither
  "sample" nor an integer (None, the default, among them). Then two full runs, the
  constructor followed by \<^verbatim>\<open>run\<close>, that start from different states of the process-wide
  generator end with the same object, hence the same \<^verbatim>\<open>.pcaxes\<close> and \<^verbatim>\<open>.variances\<close>.
  For every policy, \<^verbatim>\<open>run\<close> itself does not touch the process-wide generator:
  replicate \<open>k\<close> is decomposed with the \<open>k\<close>-th value drawn from the one generator seeded by
  the top-level seed, so what \<^verbatim>\<open>run\<close> stores depends on the seed, the replicate count,
  the subsampling flag and the object alone.
\<close>

theorem full_run_reproducible:
  assumes "s \<noteq> 0"
    and "method = PyBool False \<or> (method \<noteq> PyStr ''sample'' \<and> \<not> is_int method)"
  shows "map_sum id fst (full_run c g data method im mm mcov tcov n nreplicates (Some s) sub) =
           map_sum id fst (full_run c g' data method im mm mcov tcov n nreplicates (Some s) sub) \<and>
         run c obj g nreplicates (Some s) sub =
           (if s < 0 \<or> 4294967296 \<le> s then Inl ValueError
            else
              (case collect (map (\<lambda>sd. run_rep c obj sd sub)
                      (draw_seeds c (random_state c s)
                         (Suc (nat (case nreplicates of None \<Rightarrow> 1
                                    | Some n \<Rightarrow> if n = 0 then 1 else n) - 1)))) of
                 Inl e \<Rightarrow> Inl e
               | Inr rs \<Rightarrow>
                   Inr (obj\<lparr>pcaxes := Some (map fst rs), variances := Some (map snd rs)\<rparr>, g))) \<and>
         map_sum id fst (run c obj g nreplicates (Some s) sub) =
           map_sum id fst (run c obj g' nreplicates (Some s) sub)"
proof -
  have full: "map_sum id fst (full_run c g data method im mm mcov tcov n nreplicates (Some s) sub) =
           map_sum id fst (full_run c g' data method im mm mcov tcov n nreplicates (Some s) sub)"
  proof (cases "init c g' data method im mm mcov tcov n")
    case (Inl e)
    then have "init c g data method im mm mcov tcov n = Inl e"
      using init_draws_nothing[OF assms(2), of c g data im mm mcov tcov n g'] by simp
    with Inl show ?thesis by (simp add: full_run_def)
  next
    case (Inr p)
    obtain ob h where p: "p = (ob, h)" by (cases p)
    have "init c g data method im mm mcov tcov n = Inr (ob, g)"
      using init_draws_nothing[OF assms(2), of c g data im mm mcov tcov n g'] Inr p by simp
    with Inr p show ?thesis
      using run_seed_only[OF assms(1), THEN conjunct2, of c ob g nreplicates sub h]
      by (simp add: full_run_def)
  qed
  note r = run_seed_only[OF assms(1), of c obj g nreplicates sub g']
  show ?thesis
    by (rule conjI[OF full r])
qed

lemma demo_full_run_0:
  "map_sum id (\<lambda>x. pcaxes (fst x))
     (full_run demo 0 ''x.hdf5'' (PyInt 2) [] [] (1 / 2) (9 / 10) 5 (Some 1) (Some 1) True)
   = Inr (Some [[[0, 0], [2, 2], [2, 2]]])"
  by code_simp

lemma demo_full_run_1:
  "map_sum id (\<lambda>x. pcaxes (fst x))
     (full_run demo 1 ''x.hdf5'' (PyInt 2) [] [] (1 / 2) (9 / 10) 5 (Some 1) (Some 1) True)
   = Inr (Some [[[0, 0], [2, 0], [2, 2]]])"
  by code_simp

lemma demo_full_run_none:
  "map_sum id (\<lambda>x. pcaxes (fst x))
     (full_run demo 7 ''x.hdf5'' PyNone [] [] (1 / 2) (9 / 10) 5 (Some 2) (Some 1) True)
   = Inr (Some [[[0, 0], [2, 0], [2, 2]], [[0, 0], [0, 0], [2, 2]]])"
  by code_simp

theorem full_run_reproducible_witness:
  "(1::int) \<noteq> 0 \<and> PyNone \<noteq> PyStr ''sample'' \<and> \<not> is_int PyNone \<and>
   map_sum id (\<lambda>x. pcaxes (fst x))
     (full_run demo 7 ''x.hdf5'' PyNone [] [] (1 / 2) (9 / 10) 5 (Some 2) (Some 1) True)
   = Inr (Some [[[0, 0], [2, 0], [2, 2]], [[0, 0], [0, 0], [2, 2]]]) \<and>
   map_sum id (\<lambda>x. pcaxes (fst x))
     (full_run demo 3 ''x.hdf5'' PyNone [] [] (1 / 2) (9 / 10) 5 (Some 2) (Some 1) True)
   = Inr (Some [[[0, 0], [2, 0], [2, 2]], [[0, 0], [0, 0], [2, 2]]])"
proof -
  have nz: "(1::int) \<noteq> 0" by simp
  have pol: "PyNone = PyBool False \<or> (PyNone \<noteq> PyStr ''sample'' \<and> \<not> is_int PyNone)" by simp
  have rel: "map_sum id (\<lambda>x. pcaxes (fst x)) X = map_sum id pcaxes (map_sum id fst X)"
    for X :: "error + pca_obj \<times> nat"
    by (cases X) simp_all
  have eq: "map_sum id fst
              (full_run demo 3 ''x.hdf5'' PyNone [] [] (1 / 2) (9 / 10) 5 (Some 2) (Some 1) True) =
            map_sum id fst
              (full_run demo 7 ''x.hdf5'' PyNone [] [] (1 / 2) (9 / 10) 5 (Some 2) (Some 1) True)"
    by (rule full_run_reproducible[OF nz pol, THEN conjunct1])
  have "map_sum id (\<lambda>x. pcaxes (fst x))
          (full_run demo 3 ''x.hdf5'' PyNone [] [] (1 / 2) (9 / 10) 5 (Some 2) (Some 1) True)
        = map_sum id pcaxes (map_sum id fst
          (full_run demo 3 ''x.hdf5'' PyNone [] [] (1 / 2) (9 / 10) 5 (Some 2) (Some 1) True))"
    by (rule rel)
  also have "\<dots> = map_sum id pcaxes (map_sum id fst
          (full_run demo 7 ''x.hdf5'' PyNone [] [] (1 / 2) (9 / 10) 5 (Some 2) (Some 1) True))"
    by (simp only: eq)
  also have "\<dots> = map_sum id (\<lambda>x. pcaxes (fst x))
          (full_run demo 7 ''x.hdf5'' PyNone [] [] (1 / 2) (9 / 10) 5 (Some 2) (Some 1) True)"
    by (rule rel[symmetric])
  also have "\<dots> = Inr (Some [[[0, 0], [2, 0], [2, 2]], [[0, 0], [0, 0], [2, 2]]])"
    by (rule demo_full_run_none)
  finally show ?thesis using nz demo_full_run_none by simp
qed

text \<open>
  The claim itself speaks of every full run. The constructor takes no seed, and under
  the kmeans policy the engine draws its subsample seeds from the process-wide generator
  (\<^verbatim>\<open>self._seed()\<close>). Two full runs with \<^verbatim>\<open>impute_method=2\<close> and the same top-level
  seed 1 on the same source, started with the process-wide generator in two different
  states, store different coordinates.
\<close>

theorem full_run_depends_on_global_generator:
  "map_sum id (\<lambda>x. pcaxes (fst x))
     (full_run demo 0 ''x.hdf5'' (PyInt 2) [] [] (1 / 2) (9 / 10) 5 (Some 1) (Some 1) True)
   = Inr (Some [[[0, 0], [2, 2], [2, 2]]]) \<and>
   map_sum id (\<lambda>x. pcaxes (fst x))
     (full_run demo 1 ''x.hdf5'' (PyInt 2) [] [] (1 / 2) (9 / 10) 5 (Some 1) (Some 1) True)
   = Inr (Some [[[0, 0], [2, 0], [2, 2]]]) \<and>
   map_sum id (\<lambda>x. pcaxes (fst x))
     (full_run demo 0 ''x.hdf5'' (PyInt 2) [] [] (1 / 2) (9 / 10) 5 (Some 1) (Some 1) True)
   \<noteq> map_sum id (\<lambda>x. pcaxes (fst x))
     (full_run demo 1 ''x.hdf5'' (PyInt 2) [] [] (1 / 2) (9 / 10) 5 (Some 1) (Some 1) True)"
proof (intro conjI)
  show "map_sum id (\<lambda>x. pcaxes (fst x))
     (full_run demo 0 ''x.hdf5'' (PyInt 2) [] [] (1 / 2) (9 / 10) 5 (Some 1) (Some 1) True)
   = Inr (Some [[[0, 0], [2, 2], [2, 2]]])"
    by (rule demo_full_run_0)
  show "map_sum id (\<lambda>x. pcaxes (fst x))
     (full_run demo 1 ''x.hdf5'' (PyInt 2) [] [] (1 / 2) (9 / 10) 5 (Some 1) (Some 1) True)
   = Inr (Some [[[0, 0], [2, 0], [2, 2]]])"
    by (rule demo_full_run_1)
  show "map_sum id (\<lambda>x. pcaxes (fst x))
     (full_run demo 0 ''x.hdf5'' (PyInt 2) [] [] (1 / 2) (9 / 10) 5 (Some 1) (Some 1) True)
   \<noteq> map_sum id (\<lambda>x. pcaxes (fst x))
     (full_run demo 1 ''x.hdf5'' (PyInt 2) [] [] (1 / 2) (9 / 10) 5 (Some 1) (Some 1) True)"
    unfolding demo_full_run_0 demo_full_run_1 by simp
qed

end
